theory Spec2Isabelle
  imports Main "HOL-Library.Word" "HOL-Library.Sublist"
begin

section \<open>The byte source and the scalar codec\<close>

text \<open>
  The container codecs of \<^verbatim>\<open>containers/archive/stl_types.hpp\<close> are written against
  \<^verbatim>\<open>containers/archive/archive.hpp\<close>, which declares the byte source
  \<^verbatim>\<open>read_stream_t\<close>, the sink \<^verbatim>\<open>write_message_t\<close>, \<^verbatim>\<open>force_read\<close> and the codecs of the
  fixed-width integers. A \<^verbatim>\<open>char\<close> is a byte, a \<^verbatim>\<open>std::string\<close> a list of bytes, and
  both 64-bit integer types are 64-bit words; \<^verbatim>\<open>int64_t\<close> is read with \<open>sint\<close>.
  A result code is the C \<^verbatim>\<open>int\<close> the decoders return; no arithmetic is done on it.
\<close>

type_synonym byte = "8 word"
type_synonym uint64_t = "64 word"
type_synonym int64_t = "64 word"
type_synonym std_string = "byte list"

text \<open>
  A request made by a decoder to its environment: \<open>Read n\<close> is one call of
  \<^verbatim>\<open>force_read\<close> for \<open>n\<close> bytes, \<open>Alloc n\<close> is storage for \<open>n\<close> elements asked of the
  allocator in one call (\<^verbatim>\<open>std::vector<char> v(sz)\<close>, \<^verbatim>\<open>v->resize(sz)\<close>), whether the
  allocator serves it or not.
\<close>

datatype request = Read nat | Alloc nat

text \<open>
  Modelled from the spec: the source \<^verbatim>\<open>read_stream_t\<close> (its class is declared in
  archive.hpp) "supports reading a requested number of raw bytes, returning either the
  count actually read or a distinct hard error signal distinguishable from fewer bytes
  than requested". A source holds the bytes it can still deliver; when they run out it
  reports the end of the stream, or a hard error when \<open>broken\<close> is set. The field
  \<open>trace\<close> is a ghost: the requests made so far, in program order. It travels with the
  stream because the stream is the one piece of state every decoder passes on.
\<close>

record read_stream_t =
  remaining :: "byte list"
  broken :: bool
  trace :: "request list"

text \<open>
  Modelled from the spec: \<^verbatim>\<open>int64_t force_read(read_stream_t *s, void *p, int64_t n)\<close>
  reads until \<open>n\<close> bytes have arrived, the stream has ended or the source has failed. It
  returns \<open>-1\<close> on a hard error and the number of bytes read otherwise, which is less
  than \<open>n\<close> only when the stream ended early. The bytes read overwrite the front of
  the caller's buffer \<open>p\<close>.
\<close>

definition force_read :: "read_stream_t \<Rightarrow> byte list \<Rightarrow> nat \<Rightarrow> int \<times> byte list \<times> read_stream_t" where
  "force_read s p n =
     (let got = take n (remaining s);
          s' = s\<lparr>remaining := drop n (remaining s), trace := trace s @ [Read n]\<rparr>
      in if length got < n \<and> broken s then (- 1, got @ drop (length got) p, s')
         else (int (length got), got @ drop (length got) p, s'))"

text \<open>
  The allocator of the run says which requests it serves: \<open>serves n\<close> holds when storage
  for \<open>n\<close> elements is granted. A request it refuses (above \<^verbatim>\<open>max_size()\<close>, or more
  than the machine has) makes the standard library throw \<^verbatim>\<open>std::length_error\<close> or
  \<^verbatim>\<open>std::bad_alloc\<close>; no decoder catches it, so the exception leaves the decoder. The
  allocator is a parameter of the decoders that ask for storage sized by a declared
  length or count. Storage for one element or node at a time (\<^verbatim>\<open>push_back\<close>,
  \<^verbatim>\<open>insert\<close>) and the copy of a buffer the allocator has served (\<^verbatim>\<open>out->assign\<close>) are
  taken to be served.
\<close>

type_synonym allocator = "nat \<Rightarrow> bool"

text \<open>One request: whether it is served, and the stream with the request on record.\<close>

definition alloc :: "allocator \<Rightarrow> nat \<Rightarrow> read_stream_t \<Rightarrow> bool \<times> read_stream_t" where
  "alloc serves n s = (serves n, s\<lparr>trace := trace s @ [Alloc n]\<rparr>)"

text \<open>An allocator for the examples: it serves up to \<open>2^32\<close> elements in one request.\<close>

definition machine :: allocator where
  "machine n \<longleftrightarrow> n \<le> 4294967296"

text \<open>
  Modelled from the spec: the scalar codec of archive.hpp "provides encode/decode for
  fixed-width integers, used for every length/count prefix", and a count or length is
  "a fixed-width 64-bit integer". The eight bytes are the integer's own representation,
  least significant byte first. Decoding asks \<^verbatim>\<open>force_read\<close> for the eight bytes and
  reports a hard error as \<open>-1\<close> and a short read as \<open>-2\<close>, the two codes of the spec's
  error taxonomy; the destination is written on success only.
\<close>

definition to_bytes :: "64 word \<Rightarrow> byte list" where
  "to_bytes w = map (\<lambda>i. ucast (drop_bit (8 * i) w)) [0, 1, 2, 3, 4, 5, 6, 7]"

fun from_bytes :: "byte list \<Rightarrow> 64 word" where
  "from_bytes [] = 0"
| "from_bytes (b # bs) = or (ucast b) (push_bit 8 (from_bytes bs))"

definition serialize_uint64 :: "uint64_t \<Rightarrow> byte list" where
  "serialize_uint64 x = to_bytes x"

definition serialize_int64 :: "int64_t \<Rightarrow> byte list" where
  "serialize_int64 x = to_bytes x"

definition deserialize_uint64 :: "read_stream_t \<Rightarrow> uint64_t \<Rightarrow> int \<times> uint64_t \<times> read_stream_t" where
  "deserialize_uint64 s x =
     (let (res, buf, s') = force_read s (replicate 8 0) 8
      in if res = - 1 then (- 1, x, s')
         else if res < 8 then (- 2, x, s')
         else (0, from_bytes buf, s'))"

definition deserialize_int64 :: "read_stream_t \<Rightarrow> int64_t \<Rightarrow> int \<times> int64_t \<times> read_stream_t" where
  "deserialize_int64 s x =
     (let (res, buf, s') = force_read s (replicate 8 0) 8
      in if res = - 1 then (- 1, x, s')
         else if res < 8 then (- 2, x, s')
         else (0, from_bytes buf, s'))"

section \<open>How a decoder ends\<close>

text \<open>
  A decoder takes the stream and the destination as it stands. It returns a result
  code, with the destination and the stream as it leaves them; or an exception thrown
  by the allocator leaves it; or it reaches undefined behaviour, a call through a
  pointer to no object, after which C++ says nothing. The two last carry the stream as
  it stood at that point.

  The container codecs are templates: the codec of the element type is found by
  overload resolution, so in the model it is a parameter, together with the value
  \<^verbatim>\<open>T()\<close> of a default-constructed element.
\<close>

datatype 'a outcome =
    Returned int 'a read_stream_t
  | Threw read_stream_t
  | Undefined read_stream_t

type_synonym 'a deserializer = "read_stream_t \<Rightarrow> 'a \<Rightarrow> 'a outcome"

text \<open>The stream an outcome carries, and whether an outcome is the return of a code.\<close>

fun stream_of :: "'a outcome \<Rightarrow> read_stream_t" where
  "stream_of (Returned res d s) = s"
| "stream_of (Threw s) = s"
| "stream_of (Undefined s) = s"

fun returns :: "'a outcome \<Rightarrow> int \<Rightarrow> bool" where
  "returns (Returned res d s) c \<longleftrightarrow> res = c"
| "returns (Threw s) c \<longleftrightarrow> False"
| "returns (Undefined s) c \<longleftrightarrow> False"

text \<open>The scalar decoders always return.\<close>

definition total :: "(read_stream_t \<Rightarrow> 'a \<Rightarrow> int \<times> 'a \<times> read_stream_t) \<Rightarrow> 'a deserializer" where
  "total d s x = (case d s x of (res, y, s') \<Rightarrow> Returned res y s')"

section \<open>The text codec\<close>

text \<open>
  \<^verbatim>\<open>operator<<(write_message_t &, const std::string &)\<close>: the size as \<^verbatim>\<open>int64_t\<close>, then
  the bytes. The sink only appends, so an encoder is the function from the value to the
  bytes it appends. \<^verbatim>\<open>rassert(sz >= 0)\<close> is the encoder's precondition
  \<open>length s < 2 ^ 63\<close>; it is a hypothesis wherever the encoder is used.
\<close>

definition serialize_string :: "std_string \<Rightarrow> byte list" where
  "serialize_string s = serialize_int64 (word_of_nat (length s)) @ s"

text \<open>
  \<^verbatim>\<open>int deserialize(read_stream_t *s, std::string *out)\<close>. The local \<^verbatim>\<open>int64_t sz\<close> is
  not initialised; it is read only after a decode that has overwritten it, and the
  model starts it at 0. \<^verbatim>\<open>std::vector<char> v(sz)\<close> asks the allocator for \<open>sz\<close> bytes
  and throws when it refuses. The two \<^verbatim>\<open>rassert\<close>s hold by construction: the buffer
  has \<open>sz\<close> bytes and \<^verbatim>\<open>force_read\<close> never returns more than it was asked.
\<close>

definition deserialize_string :: "allocator \<Rightarrow> std_string deserializer" where
  "deserialize_string serves s out =
     (let out = [];
          (res, sz, s1) = deserialize_int64 s 0
      in if res \<noteq> 0 then Returned res out s1
         else if sint sz < 0 then Returned (- 3) out s1
         else
           let n = nat (sint sz);
               (served, s2) = alloc serves n s1
           in if \<not> served then Threw s2
              else
                let v = replicate n 0;
                    (num_read, v, s3) = force_read s2 v n
                in if num_read = - 1 then Returned (- 1) out s3
                   else if num_read < sint sz then Returned (- 2) out s3
                   else Returned 0 v s3)"

section \<open>The pair codec\<close>

definition serialize_pair :: "('a \<Rightarrow> byte list) \<Rightarrow> ('b \<Rightarrow> byte list) \<Rightarrow> 'a \<times> 'b \<Rightarrow> byte list" where
  "serialize_pair serT serU p = serT (fst p) @ serU (snd p)"

definition deserialize_pair :: "'a deserializer \<Rightarrow> 'b deserializer \<Rightarrow> ('a \<times> 'b) deserializer" where
  "deserialize_pair desT desU s p =
     (case desT s (fst p) of
        Returned res a s1 \<Rightarrow>
          if res \<noteq> 0 then Returned res (a, snd p) s1
          else (case desU s1 (snd p) of
                  Returned res b s2 \<Rightarrow> Returned res (a, b) s2
                | Threw s2 \<Rightarrow> Threw s2
                | Undefined s2 \<Rightarrow> Undefined s2)
      | Threw s1 \<Rightarrow> Threw s1
      | Undefined s1 \<Rightarrow> Undefined s1)"

section \<open>The list codec\<close>

text \<open>
  \<^verbatim>\<open>operator<<(write_message_t &, const std::list<T> &)\<close>: the size as \<^verbatim>\<open>uint64_t\<close>,
  then the elements from first to last. A \<^verbatim>\<open>std::list\<close> is a HOL list.
\<close>

definition serialize_list :: "('a \<Rightarrow> byte list) \<Rightarrow> 'a list \<Rightarrow> byte list" where
  "serialize_list ser v = serialize_uint64 (word_of_nat (length v)) @ concat (map ser v)"

text \<open>
  The loop of \<^verbatim>\<open>deserialize(read_stream_t *, std::list<T> *)\<close>, from \<open>i\<close> on:
  \<^verbatim>\<open>v->push_back(T())\<close>, then the element decoder runs on \<^verbatim>\<open>&v->back()\<close>. The counter
  is below \<open>sz\<close>, so \<^verbatim>\<open>++i\<close> does not wrap.
\<close>

function list_loop :: "'a deserializer \<Rightarrow> 'a \<Rightarrow> nat \<Rightarrow> nat \<Rightarrow> read_stream_t \<Rightarrow> 'a list
    \<Rightarrow> 'a list outcome" where
  "list_loop des dflt i sz s v =
     (if i < sz then
        (let v = v @ [dflt]
         in case des s (last v) of
              Returned res x s' \<Rightarrow>
                let v = butlast v @ [x]
                in if res \<noteq> 0 then Returned res v s'
                   else list_loop des dflt (i + 1) sz s' v
            | Threw s' \<Rightarrow> Threw s'
            | Undefined s' \<Rightarrow> Undefined s')
      else Returned 0 v s)"
  by pat_completeness auto
termination
  by (relation "measure (\<lambda>(des, dflt, i, sz, s, v). sz - i)") auto

text \<open>
  \<^verbatim>\<open>int deserialize(read_stream_t *s, std::list<T> *v)\<close>. The body starts with the
  decode of the count; the destination is used as it is passed in.
\<close>

definition deserialize_list :: "'a deserializer \<Rightarrow> 'a \<Rightarrow> 'a list deserializer" where
  "deserialize_list des dflt s v =
     (let (res, sz, s1) = deserialize_uint64 s 0
      in if res \<noteq> 0 then Returned res v s1
         else list_loop des dflt 0 (unat sz) s1 v)"

declare list_loop.simps [simp del]

section \<open>The vector codec\<close>

text \<open>
  \<^verbatim>\<open>operator<<(write_message_t &, const std::vector<T> &)\<close>: the size as \<^verbatim>\<open>uint64_t\<close>,
  then the elements by index. A \<^verbatim>\<open>std::vector\<close> is a HOL list.
\<close>

definition serialize_vector :: "('a \<Rightarrow> byte list) \<Rightarrow> 'a list \<Rightarrow> byte list" where
  "serialize_vector ser v = serialize_uint64 (word_of_nat (length v)) @ concat (map ser v)"

text \<open>
  \<^verbatim>\<open>int deserialize(read_stream_t *s, std::vector<T> *v)\<close>. After \<^verbatim>\<open>v->clear()\<close> and the
  decode of the count, \<^verbatim>\<open>v->resize(sz)\<close> asks the allocator for \<open>sz\<close> elements, throws
  when it refuses and fills the vector with \<open>sz\<close> elements \<^verbatim>\<open>T()\<close> otherwise.
  The loop body is \<^verbatim>\<open>res = deserialize(s, &v[i])\<close>, and \<^verbatim>\<open>v\<close> is the pointer to the
  vector, so \<^verbatim>\<open>&v[i]\<close> is the pointer \<^verbatim>\<open>v + i\<close> to a vector, not the address of the
  element \<^verbatim>\<open>(*v)[i]\<close>; the call is resolved to this very function.
  \<^item> At \<open>i = 0\<close> the pointer is \<^verbatim>\<open>v\<close>: the function runs again on the same vector and on
    the stream where the count ended. When it returns a non-zero code the loop returns
    it; an exception or undefined behaviour in it ends this call as well.
  \<^item> At \<open>i = 1\<close>, reached when \<open>1 < sz\<close>, the pointer \<^verbatim>\<open>v + 1\<close> is past the one vector
    the caller passed: the call through it is undefined behaviour.
  The decoder of the element type is never called, so it is no parameter. Each call
  that recurses has consumed the eight bytes of a count: the recursion ends.
\<close>

function deserialize_vector :: "allocator \<Rightarrow> 'a \<Rightarrow> 'a list deserializer" where
  "deserialize_vector serves dflt s v =
     (let v = [];
          (res, sz, s1) = deserialize_uint64 s 0
      in if res \<noteq> 0 then Returned res v s1
         else
           let (served, s2) = alloc serves (unat sz) s1
           in if \<not> served then Threw s2
              else
                let v = replicate (unat sz) dflt
                in if 0 < unat sz then
                     (case deserialize_vector serves dflt s2 v of
                        Returned res v s3 \<Rightarrow>
                          if res \<noteq> 0 then Returned res v s3
                          else if 1 < unat sz then Undefined s3
                          else Returned 0 v s3
                      | Threw s3 \<Rightarrow> Threw s3
                      | Undefined s3 \<Rightarrow> Undefined s3)
                   else Returned 0 v s2)"
  by pat_completeness auto
termination
  by (relation "measure (\<lambda>(serves, dflt, s, v). length (remaining s))")
     (auto simp: deserialize_uint64_def force_read_def alloc_def Let_def split: if_splits)

declare deserialize_vector.simps [simp del]

section \<open>The ordered containers\<close>

text \<open>
  \<^verbatim>\<open>std::set<T>\<close> and \<^verbatim>\<open>std::map<K, V>\<close> belong to the C++ standard library. Both are
  one ordered tree of values with unique keys; the key of a set's value is the value,
  the key of a map's value, a pair, is its first component (\<open>kov\<close>, the key of a value).
  The model of a container is the list of its values in iteration order, keys strictly
  ascending. An iterator is an index into that list; the length of the list is
  \<^verbatim>\<open>end()\<close>, and \<^verbatim>\<open>begin()\<close> is 0.

  \<open>insert_unique\<close> is \<^verbatim>\<open>insert(value)\<close>: the search from the root for the place of the
  key; a value whose key is present already is not inserted. The result is the iterator
  to the value that has the key, and the container.
\<close>

fun insert_unique :: "('a \<Rightarrow> 'k::linorder) \<Rightarrow> 'a \<Rightarrow> 'a list \<Rightarrow> nat \<times> 'a list" where
  "insert_unique kov x [] = (0, [x])"
| "insert_unique kov x (y # ys) =
     (if kov x < kov y then (0, x # y # ys)
      else if kov y < kov x then
        (let (i, zs) = insert_unique kov x ys in (Suc i, y # zs))
      else (0, y # ys))"

definition insert_at :: "nat \<Rightarrow> 'a \<Rightarrow> 'a list \<Rightarrow> nat \<times> 'a list" where
  "insert_at i x xs = (i, take i xs @ x # drop i xs)"

text \<open>
  \<open>insert_hint\<close> is \<^verbatim>\<open>insert(position, value)\<close>, the way the tree of libstdc++ carries
  it out. The hint is tried first: at \<^verbatim>\<open>end()\<close> the value is appended when its key is
  above the last key; when the key is below the key at the hint, the value goes right
  before the hint if the hint is \<^verbatim>\<open>begin()\<close> or the key before the hint is below; when
  the key is above the key at the hint, the value goes right after the hint if the hint
  is the last value or the key after the hint is above; when the keys are equal nothing
  is inserted. Whenever the hint does not fit, the search from the root is made.
\<close>

definition insert_hint :: "('a \<Rightarrow> 'k::linorder) \<Rightarrow> nat \<Rightarrow> 'a \<Rightarrow> 'a list \<Rightarrow> nat \<times> 'a list" where
  "insert_hint kov pos x xs =
     (if length xs \<le> pos then
        (if xs \<noteq> [] \<and> kov (last xs) < kov x then insert_at (length xs) x xs
         else insert_unique kov x xs)
      else if kov x < kov (xs ! pos) then
        (if pos = 0 then insert_at 0 x xs
         else if kov (xs ! (pos - 1)) < kov x then insert_at pos x xs
         else insert_unique kov x xs)
      else if kov (xs ! pos) < kov x then
        (if pos = length xs - 1 then insert_at (length xs) x xs
         else if kov x < kov (xs ! (pos + 1)) then insert_at (pos + 1) x xs
         else insert_unique kov x xs)
      else (pos, xs))"

text \<open>The invariant of a container: keys strictly ascending.\<close>

abbreviation ascending :: "('a \<Rightarrow> 'k::linorder) \<Rightarrow> 'a list \<Rightarrow> bool" where
  "ascending kov xs \<equiv> sorted_wrt (\<lambda>a b. kov a < kov b) xs"

section \<open>The set codec and the map codec\<close>

text \<open>
  \<^verbatim>\<open>operator<<\<close> for \<^verbatim>\<open>std::set<T>\<close> and \<^verbatim>\<open>std::map<K, V>\<close>: the size as \<^verbatim>\<open>uint64_t\<close>, then
  the values from \<^verbatim>\<open>begin()\<close> to \<^verbatim>\<open>end()\<close>; a value of a map is a pair and goes through
  the pair codec.
\<close>

definition serialize_set :: "('a \<Rightarrow> byte list) \<Rightarrow> 'a list \<Rightarrow> byte list" where
  "serialize_set ser s = serialize_uint64 (word_of_nat (length s)) @ concat (map ser s)"

definition serialize_map :: "('k \<Rightarrow> byte list) \<Rightarrow> ('v \<Rightarrow> byte list) \<Rightarrow> ('k \<times> 'v) list \<Rightarrow> byte list" where
  "serialize_map serK serV m =
     serialize_uint64 (word_of_nat (length m)) @ concat (map (serialize_pair serK serV) m)"

text \<open>
  The loop is the same text in the two decoders but for the types: a value is
  decoded into a fresh local (\<^verbatim>\<open>T value;\<close>, \<^verbatim>\<open>std::pair<K, V> p;\<close>), a failure returns
  with the container as it is, a success inserts the value at the hint and keeps the
  iterator that \<^verbatim>\<open>insert\<close> returns as the next hint.
\<close>

function insert_loop :: "('a \<Rightarrow> 'k::linorder) \<Rightarrow> 'a deserializer \<Rightarrow> 'a \<Rightarrow> nat \<Rightarrow> nat
    \<Rightarrow> read_stream_t \<Rightarrow> nat \<Rightarrow> 'a list \<Rightarrow> 'a list outcome" where
  "insert_loop kov des dflt i sz s position out =
     (if i < sz then
        (case des s dflt of
           Returned res x s' \<Rightarrow>
             if res \<noteq> 0 then Returned res out s'
             else
               let (position, out) = insert_hint kov position x out
               in insert_loop kov des dflt (i + 1) sz s' position out
         | Threw s' \<Rightarrow> Threw s'
         | Undefined s' \<Rightarrow> Undefined s')
      else Returned 0 out s)"
  by pat_completeness auto
termination
  by (relation "measure (\<lambda>(kov, des, dflt, i, sz, s, position, out). sz - i)") auto

declare insert_loop.simps [simp del]

definition deserialize_set :: "('a::linorder) deserializer \<Rightarrow> 'a \<Rightarrow> 'a list deserializer" where
  "deserialize_set des dflt s out =
     (let out = [];
          (res, sz, s1) = deserialize_uint64 s 0
      in if res \<noteq> 0 then Returned res out s1
         else
           let position = 0
           in insert_loop (\<lambda>x. x) des dflt 0 (unat sz) s1 position out)"

definition deserialize_map :: "('k::linorder) deserializer \<Rightarrow> 'v deserializer \<Rightarrow> 'k \<Rightarrow> 'v
    \<Rightarrow> ('k \<times> 'v) list deserializer" where
  "deserialize_map desK desV dfltK dfltV s m =
     (let m = [];
          (res, sz, s1) = deserialize_uint64 s 0
      in if res \<noteq> 0 then Returned res m s1
         else
           let position = 0
           in insert_loop fst (deserialize_pair desK desV) (dfltK, dfltV) 0 (unat sz) s1 position m)"

section \<open>Decoding without the position hint\<close>

text \<open>
  The reference for the hint: the same two decoders with \<^verbatim>\<open>insert(value)\<close> in the place
  of \<^verbatim>\<open>insert(position, value)\<close>, and no position kept.
\<close>

function insert_loop_unhinted :: "('a \<Rightarrow> 'k::linorder) \<Rightarrow> 'a deserializer \<Rightarrow> 'a \<Rightarrow> nat \<Rightarrow> nat
    \<Rightarrow> read_stream_t \<Rightarrow> 'a list \<Rightarrow> 'a list outcome" where
  "insert_loop_unhinted kov des dflt i sz s out =
     (if i < sz then
        (case des s dflt of
           Returned res x s' \<Rightarrow>
             if res \<noteq> 0 then Returned res out s'
             else insert_loop_unhinted kov des dflt (i + 1) sz s' (snd (insert_unique kov x out))
         | Threw s' \<Rightarrow> Threw s'
         | Undefined s' \<Rightarrow> Undefined s')
      else Returned 0 out s)"
  by pat_completeness auto
termination
  by (relation "measure (\<lambda>(kov, des, dflt, i, sz, s, out). sz - i)") auto

declare insert_loop_unhinted.simps [simp del]

definition deserialize_set_unhinted :: "('a::linorder) deserializer \<Rightarrow> 'a \<Rightarrow> 'a list deserializer" where
  "deserialize_set_unhinted des dflt s out =
     (let out = [];
          (res, sz, s1) = deserialize_uint64 s 0
      in if res \<noteq> 0 then Returned res out s1
         else insert_loop_unhinted (\<lambda>x. x) des dflt 0 (unat sz) s1 out)"

definition deserialize_map_unhinted :: "('k::linorder) deserializer \<Rightarrow> 'v deserializer \<Rightarrow> 'k \<Rightarrow> 'v
    \<Rightarrow> ('k \<times> 'v) list deserializer" where
  "deserialize_map_unhinted desK desV dfltK dfltV s m =
     (let m = [];
          (res, sz, s1) = deserialize_uint64 s 0
      in if res \<noteq> 0 then Returned res m s1
         else insert_loop_unhinted fst (deserialize_pair desK desV) (dfltK, dfltV) 0 (unat sz) s1 m)"

section \<open>The propagation rule\<close>

text \<open>
  What a nested decode shows to the propagation rule: how it ends, with its result
  code and the stream as it leaves it, and nothing of the destination.
\<close>

type_synonym step = "read_stream_t \<Rightarrow> unit outcome"

text \<open>
  The rule in the spec's words: a composite codec "returns the first non-zero code
  produced by a nested decode unchanged, without wrapping or reinterpreting it", and
  "composite decoders stop at the first element failure and return immediately". Run
  over the nested decodes in order, it gives the code of the first that fails, with the
  stream as that one left it, and 0 when none fails.
\<close>

fun first_nonzero :: "step list \<Rightarrow> step" where
  "first_nonzero [] s = Returned 0 () s"
| "first_nonzero (f # fs) s =
     (case f s of
        Returned res u s' \<Rightarrow> if res \<noteq> 0 then Returned res () s' else first_nonzero fs s'
      | Threw s' \<Rightarrow> Threw s'
      | Undefined s' \<Rightarrow> Undefined s')"

text \<open>The part of a decoder's outcome that the rule looks at.\<close>

definition code_of :: "'a outcome \<Rightarrow> unit outcome" where
  "code_of r = map_outcome (\<lambda>d. ()) r"

text \<open>
  The first nested decode of every container decoder, the decode of the count, and
  the count it declares.
\<close>

definition count_step :: step where
  "count_step s = (case deserialize_uint64 s 0 of (res, sz, s1) \<Rightarrow> Returned res () s1)"

definition declared_count :: "read_stream_t \<Rightarrow> nat" where
  "declared_count s = unat (fst (snd (deserialize_uint64 s 0)))"

section \<open>Streams that hold decodable values\<close>

text \<open>
  \<open>decodes des dflt xs s s'\<close>: from the stream \<open>s\<close> on, the decoder \<open>des\<close>, run on a fresh
  element each time, returns 0 once for every value of \<open>xs\<close> and produces that value,
  and the stream is \<open>s'\<close> after the last one.
\<close>

fun decodes :: "'a deserializer \<Rightarrow> 'a \<Rightarrow> 'a list \<Rightarrow> read_stream_t \<Rightarrow> read_stream_t \<Rightarrow> bool" where
  "decodes des dflt [] s s' \<longleftrightarrow> s' = s"
| "decodes des dflt (x # xs) s s' \<longleftrightarrow>
     (case des s dflt of
        Returned res y s1 \<Rightarrow> res = 0 \<and> y = x \<and> decodes des dflt xs s1 s'
      | Threw s1 \<Rightarrow> False
      | Undefined s1 \<Rightarrow> False)"

section \<open>The round-trip law\<close>

text \<open>
  A codec round-trips on the values that satisfy \<open>P\<close> when the decoder, run on a
  fresh destination \<open>dflt\<close> and on a stream that starts with the encoding of such a
  value, returns 0, leaves the value in the destination and leaves the stream right
  after the encoding. \<open>P\<close> holds what C++ guarantees of a value and HOL does not: a size
  that fits its 64-bit field, the order of a set or map.
\<close>

definition round_trips :: "('a \<Rightarrow> bool) \<Rightarrow> ('a \<Rightarrow> byte list) \<Rightarrow> 'a deserializer \<Rightarrow> 'a \<Rightarrow> bool" where
  "round_trips P ser des dflt \<longleftrightarrow>
     (\<forall>x s rest. P x \<and> remaining s = ser x @ rest
        \<longrightarrow> (\<exists>s'. des s dflt = Returned 0 x s' \<and> remaining s' = rest))"

section \<open>Properties of the scalar codec\<close>

lemma low_byte_and_rest:
  "or (ucast (ucast v :: byte)) (push_bit 8 (drop_bit 8 v)) = (v :: 64 word)"
proof (rule bit_word_eqI)
  fix n assume "n < LENGTH(64)"
  then show "bit (or (ucast (ucast v :: byte)) (push_bit 8 (drop_bit 8 v))) n = bit v n"
    by (cases "n < 8") (auto simp: bit_simps)
qed

lemma top_byte:
  "ucast (ucast (drop_bit 56 w) :: byte) = (drop_bit 56 w :: 64 word)"
proof (rule bit_word_eqI)
  fix n assume "n < LENGTH(64)"
  show "bit (ucast (ucast (drop_bit 56 w) :: byte) :: 64 word) n = bit (drop_bit 56 w) n"
    using bit_imp_le_length [of w "56 + n"] by (auto simp: bit_simps)
qed

lemma from_bytes_to_bytes: "from_bytes (to_bytes w) = w"
proof -
  have s: "or (ucast (ucast (drop_bit k w) :: byte)) (push_bit 8 (drop_bit (8 + k) w)) = drop_bit k w" for k
    using low_byte_and_rest [of "drop_bit k w"] by (simp only: drop_bit_drop_bit)
  have "from_bytes (to_bytes w) = drop_bit 0 w"
    unfolding to_bytes_def list.map from_bytes.simps push_bit_of_0 or.right_neutral
    using s[of 48] s[of 40] s[of 32] s[of 24] s[of 16] s[of 8] s[of 0] top_byte[of w]
    by simp
  then show ?thesis by simp
qed

lemma length_to_bytes: "length (to_bytes w) = 8"
  by (simp add: to_bytes_def)

lemma deserialize_int64_success:
  assumes "deserialize_int64 s x = (0, sz, s1)"
  shows "8 \<le> length (remaining s)"
    and "s1 = s\<lparr>remaining := drop 8 (remaining s), trace := trace s @ [Read 8]\<rparr>"
    and "sz = from_bytes (take 8 (remaining s))"
  using assms
  by (auto simp: deserialize_int64_def force_read_def Let_def split: if_splits)

lemma sint_word_of_nat:
  "n < 2 ^ 63 \<Longrightarrow> sint (word_of_nat n :: 64 word) = int n"
  by (simp add: signed_of_nat signed_take_bit_int_eq_self)

lemma unat_word_of_nat:
  "n < 2 ^ 64 \<Longrightarrow> unat (word_of_nat n :: 64 word) = n"
  by (rule of_nat_inverse) simp_all

lemma deserialize_int64_to_bytes:
  "remaining s = to_bytes w @ rest \<Longrightarrow>
   deserialize_int64 s x = (0, w, s\<lparr>remaining := rest, trace := trace s @ [Read 8]\<rparr>)"
  by (simp add: deserialize_int64_def force_read_def length_to_bytes from_bytes_to_bytes)

lemma deserialize_uint64_to_bytes:
  "remaining s = to_bytes w @ rest \<Longrightarrow>
   deserialize_uint64 s x = (0, w, s\<lparr>remaining := rest, trace := trace s @ [Read 8]\<rparr>)"
  by (simp add: deserialize_uint64_def force_read_def length_to_bytes from_bytes_to_bytes)

lemma deserialize_uint64_success:
  assumes "deserialize_uint64 s x = (0, sz, s1)"
  shows "8 \<le> length (remaining s)"
    and "s1 = s\<lparr>remaining := drop 8 (remaining s), trace := trace s @ [Read 8]\<rparr>"
    and "sz = from_bytes (take 8 (remaining s))"
  using assms
  by (auto simp: deserialize_uint64_def force_read_def Let_def split: if_splits)

lemma bytes_of_small [simp]:
  "to_bytes 0 = [0, 0, 0, 0, 0, 0, 0, 0]"
  "to_bytes 1 = [1, 0, 0, 0, 0, 0, 0, 0]"
  "to_bytes 2 = [2, 0, 0, 0, 0, 0, 0, 0]"
  "to_bytes 3 = [3, 0, 0, 0, 0, 0, 0, 0]"
  "to_bytes 5 = [5, 0, 0, 0, 0, 0, 0, 0]"
  "to_bytes 10 = [10, 0, 0, 0, 0, 0, 0, 0]"
  "to_bytes 20 = [20, 0, 0, 0, 0, 0, 0, 0]"
  "to_bytes 30 = [30, 0, 0, 0, 0, 0, 0, 0]"
  by (simp_all add: to_bytes_def)

lemma deserialize_uint64_step:
  "deserialize_uint64 \<lparr>remaining = b0 # b1 # b2 # b3 # b4 # b5 # b6 # b7 # bs, broken = e, trace = tr\<rparr> x
   = (0, from_bytes [b0, b1, b2, b3, b4, b5, b6, b7],
      \<lparr>remaining = bs, broken = e, trace = tr @ [Read 8]\<rparr>)"
  by (simp add: deserialize_uint64_def force_read_def)

lemma deserialize_int64_step:
  "deserialize_int64 \<lparr>remaining = b0 # b1 # b2 # b3 # b4 # b5 # b6 # b7 # bs, broken = e, trace = tr\<rparr> x
   = (0, from_bytes [b0, b1, b2, b3, b4, b5, b6, b7],
      \<lparr>remaining = bs, broken = e, trace = tr @ [Read 8]\<rparr>)"
  by (simp add: deserialize_int64_def force_read_def)

lemma deserialize_uint64_trace:
  "deserialize_uint64 s x = (r, y, s1) \<Longrightarrow> trace s1 = trace s @ [Read 8]"
  by (auto simp: deserialize_uint64_def force_read_def Let_def split: if_splits)

lemma machine_serves [simp]:
  "machine 0" "machine (Suc 0)" "machine 1" "machine 2" "machine 3" "machine 5" "machine 1048576"
  "\<not> machine 18446744073709551611"
  by (simp_all add: machine_def)

lemma total_simps [simp]:
  "d s x = (res, y, s') \<Longrightarrow> total d s x = Returned res y s'"
  by (simp add: total_def)

text \<open>
  The text codec round-trips when the allocator serves the length, whatever the
  destination held and whatever follows.
\<close>

lemma deserialize_string_serialize_string:
  assumes "length v < 2 ^ 63" and "serves (length v)" and "remaining s = serialize_string v @ rest"
  shows "deserialize_string serves s out =
         Returned 0 v (s\<lparr>remaining := rest,
                         trace := trace s @ [Read 8, Alloc (length v), Read (length v)]\<rparr>)"
proof -
  have "deserialize_int64 s 0 =
        (0, word_of_nat (length v), s\<lparr>remaining := v @ rest, trace := trace s @ [Read 8]\<rparr>)"
    using assms(3) by (intro deserialize_int64_to_bytes) (simp add: serialize_string_def serialize_int64_def)
  then show ?thesis
    using assms(1,2)
    by (simp add: deserialize_string_def sint_word_of_nat force_read_def alloc_def Let_def)
qed

section \<open>Properties of the text decoder\<close>

text \<open>
  C2. When the length field of a text decodes, and decodes to a negative signed
  64-bit value, the text decoder returns \<open>-3\<close>, and the stream it leaves is the stream
  as the decode of the length field left it: the eight bytes of the field are consumed
  and nothing more, and the one request on record is the read of the field, so no read
  of a payload was attempted and no buffer was asked for. This holds for every
  allocator, also one that serves nothing.
\<close>

theorem deserialize_string_negative_length:
  assumes "deserialize_int64 s 0 = (0, sz, s1)" and "sint sz < 0"
  shows "deserialize_string serves s out = Returned (- 3) [] s1
         \<and> remaining s1 = drop 8 (remaining s)
         \<and> trace s1 = trace s @ [Read 8]"
  using assms deserialize_int64_success [OF assms(1)]
  by (simp add: deserialize_string_def)

theorem deserialize_string_negative_length_witness:
  "deserialize_string (\<lambda>n. False)
     \<lparr>remaining = [251, 255, 255, 255, 255, 255, 255, 255, 104, 105], broken = False, trace = []\<rparr>
     [120]
   = Returned (- 3) [] \<lparr>remaining = [104, 105], broken = False, trace = [Read 8]\<rparr>"
proof -
  let ?s = "\<lparr>remaining = [251, 255, 255, 255, 255, 255, 255, 255, 104, 105 :: byte],
             broken = False, trace = []\<rparr>"
  let ?s1 = "\<lparr>remaining = [104, 105 :: byte], broken = False, trace = [Read 8]\<rparr>"
  have d: "deserialize_int64 ?s 0 = (0, - 5, ?s1)"
    by (simp add: deserialize_int64_def force_read_def)
  have n: "sint (- 5 :: 64 word) < 0"
    by simp
  from deserialize_string_negative_length [OF d n, of "\<lambda>n. False" "[120]"] show ?thesis
    by simp
qed

text \<open>
  C5. When the length field of a text has decoded to a non-negative \<open>L\<close>, the buffer
  has been served and the payload is read, the decoder returns \<open>-1\<close> exactly when
  \<^verbatim>\<open>force_read\<close> returns the hard-error signal \<open>-1\<close>, which is exactly when the source is
  broken before \<open>L\<close> bytes have arrived; it returns \<open>-2\<close> exactly when \<^verbatim>\<open>force_read\<close>
  returns a count below \<open>L\<close>, which is exactly when the source ends, without being
  broken, before \<open>L\<close> bytes have arrived. The two conditions exclude each other.
\<close>

theorem deserialize_string_read_errors:
  assumes "deserialize_int64 s 0 = (0, sz, s1)" and "0 \<le> sint sz"
    and "alloc serves (nat (sint sz)) s1 = (True, s2)"
    and "force_read s2 (replicate (nat (sint sz)) 0) (nat (sint sz)) = (num_read, buf, s3)"
  shows "(returns (deserialize_string serves s out) (- 1) \<longleftrightarrow> num_read = - 1)
       \<and> (returns (deserialize_string serves s out) (- 2) \<longleftrightarrow> num_read \<noteq> - 1 \<and> num_read < sint sz)
       \<and> (num_read = - 1 \<longleftrightarrow> broken s1 \<and> int (length (remaining s1)) < sint sz)
       \<and> (num_read \<noteq> - 1 \<and> num_read < sint sz
            \<longleftrightarrow> \<not> broken s1 \<and> int (length (remaining s1)) < sint sz)"
  using assms
  apply (simp add: deserialize_string_def)
  apply (auto simp: force_read_def alloc_def Let_def split: if_splits)
  done

theorem deserialize_string_read_errors_witness:
  "returns (deserialize_string machine
          \<lparr>remaining = [5, 0, 0, 0, 0, 0, 0, 0, 104, 105], broken = False, trace = []\<rparr> []) (- 2)
   \<and> returns (deserialize_string machine
          \<lparr>remaining = [5, 0, 0, 0, 0, 0, 0, 0, 104, 105], broken = True, trace = []\<rparr> []) (- 1)"
proof -
  have five: "0 \<le> sint (5 :: 64 word)"
    by simp
  let ?eof = "\<lparr>remaining = [5, 0, 0, 0, 0, 0, 0, 0, 104, 105 :: byte], broken = False, trace = []\<rparr>"
  let ?eof1 = "\<lparr>remaining = [104, 105 :: byte], broken = False, trace = [Read 8]\<rparr>"
  let ?eof2 = "\<lparr>remaining = [104, 105 :: byte], broken = False, trace = [Read 8, Alloc 5]\<rparr>"
  have d: "deserialize_int64 ?eof 0 = (0, 5, ?eof1)"
    by (simp add: deserialize_int64_def force_read_def)
  have a: "alloc machine (nat (sint (5 :: 64 word))) ?eof1 = (True, ?eof2)"
    by (simp add: alloc_def)
  have f: "force_read ?eof2 (replicate (nat (sint (5 :: 64 word))) 0) (nat (sint (5 :: 64 word)))
           = (2, [104, 105, 0, 0, 0],
              \<lparr>remaining = [], broken = False, trace = [Read 8, Alloc 5, Read 5]\<rparr>)"
    by (simp add: force_read_def eval_nat_numeral)
  let ?err = "\<lparr>remaining = [5, 0, 0, 0, 0, 0, 0, 0, 104, 105 :: byte], broken = True, trace = []\<rparr>"
  let ?err1 = "\<lparr>remaining = [104, 105 :: byte], broken = True, trace = [Read 8]\<rparr>"
  let ?err2 = "\<lparr>remaining = [104, 105 :: byte], broken = True, trace = [Read 8, Alloc 5]\<rparr>"
  have d': "deserialize_int64 ?err 0 = (0, 5, ?err1)"
    by (simp add: deserialize_int64_def force_read_def)
  have a': "alloc machine (nat (sint (5 :: 64 word))) ?err1 = (True, ?err2)"
    by (simp add: alloc_def)
  have f': "force_read ?err2 (replicate (nat (sint (5 :: 64 word))) 0) (nat (sint (5 :: 64 word)))
           = (- 1, [104, 105, 0, 0, 0],
              \<lparr>remaining = [], broken = True, trace = [Read 8, Alloc 5, Read 5]\<rparr>)"
    by (simp add: force_read_def eval_nat_numeral)
  from deserialize_string_read_errors [OF d five a f, of "[]"]
       deserialize_string_read_errors [OF d' five a' f', of "[]"]
  show ?thesis
    by simp
qed

text \<open>
  C10. Whenever the text decoder returns a non-zero code, whatever the cause (the
  length field could not be read, the length is negative, the source failed or the
  payload is short), the destination is the empty text, whatever it held before:
  \<^verbatim>\<open>out->clear()\<close> is the first statement and \<^verbatim>\<open>out->assign\<close> is reached on the
  success path only.
\<close>

theorem deserialize_string_empty_on_error:
  "deserialize_string serves s out = Returned res out' s' \<Longrightarrow> res \<noteq> 0 \<Longrightarrow> out' = []"
  by (auto simp: deserialize_string_def Let_def split: prod.splits if_splits)

theorem deserialize_string_empty_on_error_witness:
  "deserialize_string machine
      \<lparr>remaining = [5, 0, 0, 0, 0, 0, 0, 0, 104, 105], broken = False, trace = []\<rparr> [120, 121]
   = Returned (- 2) [] \<lparr>remaining = [], broken = False, trace = [Read 8, Alloc 5, Read 5]\<rparr>"
proof -
  let ?s = "\<lparr>remaining = [5, 0, 0, 0, 0, 0, 0, 0, 104, 105 :: byte], broken = False, trace = []\<rparr>"
  let ?s' = "\<lparr>remaining = [] :: byte list, broken = False, trace = [Read 8, Alloc 5, Read 5]\<rparr>"
  obtain out' where run: "deserialize_string machine ?s [120, 121] = Returned (- 2) out' ?s'"
    by (simp add: deserialize_string_def deserialize_int64_step force_read_def alloc_def)
  have nz: "(- 2 :: int) \<noteq> 0"
    by simp
  from deserialize_string_empty_on_error [OF run nz] run show ?thesis
    by simp
qed

section \<open>Properties of the pair decoder\<close>

text \<open>
  C6. When the decode of the first component returns a non-zero code, the pair decoder
  returns that code with the stream as that decode left it and the second component of
  the destination untouched; otherwise it ends as the decode of the second component
  ends, with that decode's code. The second decoder is arbitrary here, also one whose
  every call is undefined: were it called after a failure of the first, the pair
  decoder would not return.
\<close>

theorem deserialize_pair_short_circuit:
  assumes "desT s (fst p) = Returned res a s1"
  shows "(res \<noteq> 0 \<longrightarrow> deserialize_pair desT desU s p = Returned res (a, snd p) s1)
       \<and> (res = 0 \<longrightarrow> deserialize_pair desT desU s p
              = map_outcome (\<lambda>b. (a, b)) (desU s1 (snd p)))"
  using assms by (auto simp: deserialize_pair_def split: outcome.splits)

theorem deserialize_pair_short_circuit_witness:
  "deserialize_pair (total deserialize_uint64) (\<lambda>s x. Undefined s)
     \<lparr>remaining = [42, 0, 0], broken = False, trace = []\<rparr> (7, [120 :: byte])
   = Returned (- 2) (7, [120]) \<lparr>remaining = [], broken = False, trace = [Read 8]\<rparr>"
proof -
  let ?s = "\<lparr>remaining = [42, 0, 0 :: byte], broken = False, trace = []\<rparr>"
  have d: "total deserialize_uint64 ?s (fst (7, [120 :: byte]))
           = Returned (- 2) 7 \<lparr>remaining = [], broken = False, trace = [Read 8]\<rparr>"
    by (simp add: total_def deserialize_uint64_def force_read_def)
  from deserialize_pair_short_circuit
         [where desT = "total deserialize_uint64" and s = ?s and p = "(7, [120 :: byte])"
            and desU = "\<lambda>s x. Undefined s", OF d]
  show ?thesis
    by simp
qed

section \<open>Properties of the list decoder\<close>

text \<open>
  C3. The list decoder does not clear its destination: its body starts with the
  decode of the count, where the decoders of the vector, the set, the map and the text
  start with \<^verbatim>\<open>clear()\<close>. Called on a destination that holds \<open>[7]\<close>, with a stream that
  encodes the one-element list \<open>[5]\<close>, it succeeds and leaves \<open>[7, 5]\<close>: the element 7
  that the destination held before the call is still there.
\<close>

theorem deserialize_list_keeps_old_elements:
  "deserialize_list (total deserialize_uint64) 0
     \<lparr>remaining = [1, 0, 0, 0, 0, 0, 0, 0, 5, 0, 0, 0, 0, 0, 0, 0], broken = False, trace = []\<rparr>
     [7]
   = Returned 0 [7, 5] \<lparr>remaining = [], broken = False, trace = [Read 8, Read 8]\<rparr>"
  by (simp add: deserialize_list_def list_loop.simps deserialize_uint64_step)

section \<open>Properties of the ordered containers\<close>

lemma insert_unique_between:
  "\<forall>y\<in>set ys. kov y < kov x \<Longrightarrow> \<forall>z\<in>set zs. kov x < kov z \<Longrightarrow>
   snd (insert_unique kov x (ys @ zs)) = ys @ x # zs"
proof (induction ys)
  case Nil
  then show ?case by (cases zs) auto
next
  case (Cons y ys)
  then show ?case by (auto simp: split_beta)
qed

lemma insert_unique_present:
  "ascending kov xs \<Longrightarrow> y \<in> set xs \<Longrightarrow> kov y = kov x \<Longrightarrow> snd (insert_unique kov x xs) = xs"
proof (induction xs)
  case Nil
  then show ?case by simp
next
  case (Cons a xs)
  then show ?case by (auto simp: split_beta)
qed

lemma set_insert_unique:
  "set (snd (insert_unique kov x xs)) \<subseteq> insert x (set xs)"
  by (induction xs) (auto simp: split_beta)

lemma ascending_insert_unique:
  "ascending kov xs \<Longrightarrow> ascending kov (snd (insert_unique kov x xs))"
proof (induction xs)
  case Nil
  then show ?case by simp
next
  case (Cons a xs)
  then show ?case
    using set_insert_unique [of kov x xs] by (auto simp: split_beta)
qed

lemma ascending_nth:
  "ascending kov xs \<Longrightarrow> i < j \<Longrightarrow> j < length xs \<Longrightarrow> kov (xs ! i) < kov (xs ! j)"
  by (rule sorted_wrt_nth_less)

lemma ascending_take_below:
  assumes "ascending kov xs" and "n \<le> length xs" and "0 < n" and "kov (xs ! (n - 1)) < k"
  shows "\<forall>y\<in>set (take n xs). kov y < k"
proof
  fix y assume "y \<in> set (take n xs)"
  then obtain i where i: "i < n" and y: "y = xs ! i"
    using assms(2) by (auto simp: in_set_conv_nth)
  show "kov y < k"
  proof (cases "i = n - 1")
    case True
    with y assms(4) show ?thesis by simp
  next
    case False
    with i assms(2,3) have "kov (xs ! i) < kov (xs ! (n - 1))"
      by (intro ascending_nth [OF assms(1)]) auto
    with y assms(4) show ?thesis by simp
  qed
qed

lemma ascending_drop_above:
  assumes "ascending kov xs" and "n < length xs" and "k < kov (xs ! n)"
  shows "\<forall>z\<in>set (drop n xs). k < kov z"
proof
  fix z assume "z \<in> set (drop n xs)"
  then obtain i where i: "i < length xs - n" and z: "z = xs ! (n + i)"
    by (auto simp: in_set_conv_nth)
  show "k < kov z"
  proof (cases "i = 0")
    case True
    with z assms(3) show ?thesis by simp
  next
    case False
    with i have "kov (xs ! n) < kov (xs ! (n + i))"
      by (intro ascending_nth [OF assms(1)]) auto
    with z assms(3) show ?thesis by simp
  qed
qed

lemma insert_at_fits:
  assumes "ascending kov xs" and "n \<le> length xs"
    and "0 < n \<Longrightarrow> kov (xs ! (n - 1)) < kov x"
    and "n < length xs \<Longrightarrow> kov x < kov (xs ! n)"
  shows "snd (insert_at n x xs) = snd (insert_unique kov x xs)"
proof -
  have below: "\<forall>y\<in>set (take n xs). kov y < kov x"
  proof (cases "0 < n")
    case True
    then show ?thesis using ascending_take_below [OF assms(1,2) True] assms(3) by blast
  next
    case False
    then show ?thesis by simp
  qed
  have above: "\<forall>z\<in>set (drop n xs). kov x < kov z"
  proof (cases "n < length xs")
    case True
    then show ?thesis using ascending_drop_above [OF assms(1) True] assms(4) by blast
  next
    case False
    then show ?thesis by simp
  qed
  from insert_unique_between [OF below above] show ?thesis
    by (simp add: insert_at_def)
qed

lemma insert_hint_unique:
  assumes "ascending kov xs"
  shows "snd (insert_hint kov pos x xs) = snd (insert_unique kov x xs)"
proof (cases "length xs \<le> pos")
  case at_end: True
  show ?thesis
  proof (cases "xs \<noteq> [] \<and> kov (last xs) < kov x")
    case True
    then have "snd (insert_at (length xs) x xs) = snd (insert_unique kov x xs)"
      by (intro insert_at_fits [OF assms]) (auto simp: last_conv_nth)
    with at_end True show ?thesis by (simp add: insert_hint_def)
  next
    case False
    with at_end show ?thesis by (auto simp: insert_hint_def)
  qed
next
  case inside: False
  show ?thesis
  proof (cases "kov x < kov (xs ! pos)")
    case below: True
    show ?thesis
    proof (cases "pos = 0 \<or> kov (xs ! (pos - 1)) < kov x")
      case True
      with inside below have "snd (insert_at pos x xs) = snd (insert_unique kov x xs)"
        by (intro insert_at_fits [OF assms]) auto
      with inside below True show ?thesis by (auto simp: insert_hint_def)
    next
      case False
      with inside below show ?thesis by (auto simp: insert_hint_def)
    qed
  next
    case not_below: False
    show ?thesis
    proof (cases "kov (xs ! pos) < kov x")
      case above: True
      show ?thesis
      proof (cases "pos = length xs - 1 \<or> kov x < kov (xs ! (pos + 1))")
        case True
        with inside above have "snd (insert_at (pos + 1) x xs) = snd (insert_unique kov x xs)"
          by (intro insert_at_fits [OF assms]) auto
        moreover from inside have "pos = length xs - 1 \<Longrightarrow> pos + 1 = length xs"
          by simp
        ultimately show ?thesis
          using inside not_below above True by (auto simp: insert_hint_def)
      next
        case False
        with inside not_below above show ?thesis by (auto simp: insert_hint_def)
      qed
    next
      case False
      with inside not_below have "snd (insert_unique kov x xs) = xs"
        by (intro insert_unique_present [OF assms, of "xs ! pos"]) auto
      with inside not_below False show ?thesis by (simp add: insert_hint_def)
    qed
  qed
qed

text \<open>
  The iterator that either insertion returns points at the value that has the key.
\<close>

lemma insert_unique_position:
  "ascending kov xs \<Longrightarrow>
   fst (insert_unique kov x xs) < length (snd (insert_unique kov x xs))
   \<and> kov (snd (insert_unique kov x xs) ! fst (insert_unique kov x xs)) = kov x"
  by (induction xs) (auto simp: split_beta)

lemma insert_hint_position:
  "ascending kov xs \<Longrightarrow>
   fst (insert_hint kov pos x xs) < length (snd (insert_hint kov pos x xs))
   \<and> kov (snd (insert_hint kov pos x xs) ! fst (insert_hint kov pos x xs)) = kov x"
  using insert_unique_position [of kov xs x]
  by (auto simp: insert_hint_def insert_at_def nth_append)

lemma insert_loop_eq_unhinted:
  "ascending kov out \<Longrightarrow>
   insert_loop kov des dflt i sz s position out = insert_loop_unhinted kov des dflt i sz s out"
proof (induction "sz - i" arbitrary: i s position out)
  case 0
  then show ?case
    by (simp add: insert_loop.simps [of _ _ _ i] insert_loop_unhinted.simps [of _ _ _ i])
next
  case (Suc n)
  then have i: "i < sz" and n: "n = sz - (i + 1)"
    by auto
  have step: "insert_loop kov des dflt (i + 1) sz s' (fst (insert_hint kov position x out))
                (snd (insert_hint kov position x out))
              = insert_loop_unhinted kov des dflt (i + 1) sz s' (snd (insert_unique kov x out))" for s' x
    using Suc.hyps(1) [OF n, of "snd (insert_unique kov x out)" s' "fst (insert_hint kov position x out)"]
          ascending_insert_unique [OF Suc.prems, of x] insert_hint_unique [OF Suc.prems, of position x]
    by simp
  show ?case
    using i step
    by (simp add: insert_loop.simps [of _ _ _ i] insert_loop_unhinted.simps [of _ _ _ i]
          split_beta split: outcome.splits)
qed

text \<open>
  C8. For every stream, every pair of element decoders and every destination, the map
  decoder and the set decoder give the result (code, container, stream) of the same
  decoders with \<^verbatim>\<open>insert(value)\<close> in the place of \<^verbatim>\<open>insert(position, value)\<close>. Nothing
  is assumed about the order of the keys in the stream.
\<close>

theorem hint_is_only_a_hint:
  "deserialize_map desK desV dfltK dfltV s m = deserialize_map_unhinted desK desV dfltK dfltV s m
   \<and> deserialize_set des dflt t out = deserialize_set_unhinted des dflt t out"
  by (simp add: deserialize_map_def deserialize_map_unhinted_def deserialize_set_def
        deserialize_set_unhinted_def insert_loop_eq_unhinted split_beta)

lemma insert_loop_unhinted_decodes:
  "decodes des dflt xs s s' \<Longrightarrow> i + length xs = sz \<Longrightarrow>
   insert_loop_unhinted kov des dflt i sz s out
   = Returned 0 (fold (\<lambda>x c. snd (insert_unique kov x c)) xs out) s'"
proof (induction xs arbitrary: i s out)
  case Nil
  then show ?case by (subst insert_loop_unhinted.simps) simp
next
  case (Cons x xs)
  then show ?case
    by (subst insert_loop_unhinted.simps) (auto split: outcome.splits)
qed

lemma ascending_fold_insert_unique:
  "ascending kov c \<Longrightarrow> ascending kov (fold (\<lambda>x c. snd (insert_unique kov x c)) xs c)"
  by (induction xs arbitrary: c) (simp_all add: ascending_insert_unique)

lemma map_of_insert_unique:
  "ascending fst c \<Longrightarrow> map_of (snd (insert_unique fst x c)) = map_of (c @ [x])"
proof (induction c)
  case Nil
  then show ?case by simp
next
  case (Cons y ys)
  show ?case
  proof (cases "fst x < fst y")
    case True
    with Cons.prems have "fst x \<notin> fst ` set (y # ys)"
      by auto
    then have "map_of (y # ys) (fst x) = None"
      by (simp add: map_of_eq_None_iff)
    then have "map_of ((y # ys) @ [x]) = map_of (x # y # ys)"
      by (auto simp: map_add_def fun_eq_iff split: option.splits)
    with True show ?thesis by simp
  next
    case False
    with Cons show ?thesis
      by (auto simp: split_beta fun_eq_iff map_add_def split: option.splits)
  qed
qed

lemma map_of_fold_insert_unique:
  "ascending fst c \<Longrightarrow> map_of (fold (\<lambda>x c. snd (insert_unique fst x c)) xs c) = map_of (c @ xs)"
proof (induction xs arbitrary: c)
  case Nil
  then show ?case by simp
next
  case (Cons x xs)
  have "map_of (fold (\<lambda>x c. snd (insert_unique fst x c)) (x # xs) c)
        = map_of (snd (insert_unique fst x c) @ xs)"
    using Cons.IH [OF ascending_insert_unique [OF Cons.prems, of x]] by simp
  also have "\<dots> = map_of xs ++ map_of (c @ [x])"
    by (simp add: map_of_insert_unique [OF Cons.prems])
  also have "\<dots> = map_of (c @ x # xs)"
    by simp
  finally show ?case .
qed

lemma set_insert_unique_id:
  "set (snd (insert_unique (\<lambda>x. x) x c)) = insert x (set c)"
  by (induction c) (auto simp: split_beta)

lemma set_fold_insert_unique:
  "set (fold (\<lambda>x c. snd (insert_unique (\<lambda>x. x) x c)) xs c) = set c \<union> set xs"
  by (induction xs arbitrary: c) (simp_all add: set_insert_unique_id)

text \<open>
  C9. Take a stream whose count decodes to \<open>N\<close> and is followed by \<open>N\<close> values that
  decode, whatever their keys: they may repeat and come in any order. The map decoder
  returns 0 with the stream at the end of the last value, and the map it leaves has
  ascending keys and looks every key up as the list of the decoded pairs does, from the
  front: the first pair with a key gives the value, later pairs with that key are
  ignored. The set decoder returns 0 as well and leaves the set of the decoded values.
\<close>

theorem duplicate_keys_are_absorbed:
  "(deserialize_uint64 s 0 = (0, sz, s1) \<and> unat sz = length xs
      \<and> decodes (deserialize_pair desK desV) (dfltK, dfltV) xs s1 s2
    \<longrightarrow> (\<exists>m. deserialize_map desK desV dfltK dfltV s m0 = Returned 0 m s2
              \<and> map_of m = map_of xs \<and> ascending fst m))
   \<and> (deserialize_uint64 t 0 = (0, tz, t1) \<and> unat tz = length ys
      \<and> decodes des dflt ys t1 t2
    \<longrightarrow> (\<exists>out. deserialize_set des dflt t out0 = Returned 0 out t2
              \<and> set out = set ys \<and> ascending (\<lambda>x. x) out))"
proof (intro conjI impI; elim conjE)
  assume "deserialize_uint64 s 0 = (0, sz, s1)" and "unat sz = length xs"
    and "decodes (deserialize_pair desK desV) (dfltK, dfltV) xs s1 s2"
  then have "deserialize_map_unhinted desK desV dfltK dfltV s m0
             = Returned 0 (fold (\<lambda>x c. snd (insert_unique fst x c)) xs []) s2"
    by (simp add: deserialize_map_unhinted_def insert_loop_unhinted_decodes)
  moreover have "deserialize_map desK desV dfltK dfltV s m0
                 = deserialize_map_unhinted desK desV dfltK dfltV s m0"
    by (simp add: deserialize_map_def deserialize_map_unhinted_def insert_loop_eq_unhinted split_beta)
  ultimately show "\<exists>m. deserialize_map desK desV dfltK dfltV s m0 = Returned 0 m s2
              \<and> map_of m = map_of xs \<and> ascending fst m"
    using map_of_fold_insert_unique [of "[]" xs] ascending_fold_insert_unique [of fst "[]" xs]
    by simp
next
  assume "deserialize_uint64 t 0 = (0, tz, t1)" and "unat tz = length ys"
    and "decodes des dflt ys t1 t2"
  then have "deserialize_set_unhinted des dflt t out0
             = Returned 0 (fold (\<lambda>x c. snd (insert_unique (\<lambda>x. x) x c)) ys []) t2"
    by (simp add: deserialize_set_unhinted_def insert_loop_unhinted_decodes)
  moreover have "deserialize_set des dflt t out0 = deserialize_set_unhinted des dflt t out0"
    by (simp add: deserialize_set_def deserialize_set_unhinted_def insert_loop_eq_unhinted split_beta)
  ultimately show "\<exists>out. deserialize_set des dflt t out0 = Returned 0 out t2
              \<and> set out = set ys \<and> ascending (\<lambda>x. x) out"
    using set_fold_insert_unique [of ys "[]"] ascending_fold_insert_unique [of "\<lambda>x. x" "[]" ys]
    by simp
qed


theorem duplicate_keys_are_absorbed_witness:
  "deserialize_map (total deserialize_uint64) (total deserialize_uint64) 0 0
     \<lparr>remaining = concat (map serialize_uint64 [3, 1, 10, 2, 20, 1, 30]), broken = False, trace = []\<rparr> []
   = Returned 0 [(1, 10), (2, 20)]
       \<lparr>remaining = [], broken = False,
          trace = [Read 8, Read 8, Read 8, Read 8, Read 8, Read 8, Read 8]\<rparr>
   \<and> map_of [(1 :: uint64_t, 10 :: uint64_t), (2, 20)] = map_of [(1, 10), (2, 20), (1, 30)]
   \<and> deserialize_set (total deserialize_uint64) 0
     \<lparr>remaining = concat (map serialize_uint64 [3, 5, 3, 5]), broken = False, trace = []\<rparr> []
   = Returned 0 [3, 5]
       \<lparr>remaining = [], broken = False, trace = [Read 8, Read 8, Read 8, Read 8]\<rparr>
   \<and> set [3 :: uint64_t, 5] = set [5, 3, 5]"
proof -
  let ?s = "\<lparr>remaining = concat (map serialize_uint64 [3, 1, 10, 2, 20, 1, 30]),
             broken = False, trace = []\<rparr>"
  let ?s1 = "\<lparr>remaining = concat (map serialize_uint64 [1, 10, 2, 20, 1, 30]),
              broken = False, trace = [Read 8]\<rparr>"
  let ?s2 = "\<lparr>remaining = [], broken = False,
              trace = [Read 8, Read 8, Read 8, Read 8, Read 8, Read 8, Read 8]\<rparr>"
  let ?xs = "[(1 :: uint64_t, 10 :: uint64_t), (2, 20), (1, 30)]"
  let ?t = "\<lparr>remaining = concat (map serialize_uint64 [3, 5, 3, 5]), broken = False, trace = []\<rparr>"
  let ?t1 = "\<lparr>remaining = concat (map serialize_uint64 [5, 3, 5]), broken = False, trace = [Read 8]\<rparr>"
  let ?t2 = "\<lparr>remaining = [], broken = False, trace = [Read 8, Read 8, Read 8, Read 8]\<rparr>"
  let ?ys = "[5 :: uint64_t, 3, 5]"
  have count: "deserialize_uint64 ?s 0 = (0, 3, ?s1)"
    by (simp add: serialize_uint64_def deserialize_uint64_step)
  have len: "unat (3 :: uint64_t) = length ?xs"
    by simp
  have elems: "decodes (deserialize_pair (total deserialize_uint64) (total deserialize_uint64))
                 (0, 0) ?xs ?s1 ?s2"
    by (simp add: serialize_uint64_def deserialize_pair_def total_def deserialize_uint64_step)
  have count': "deserialize_uint64 ?t 0 = (0, 3, ?t1)"
    by (simp add: serialize_uint64_def deserialize_uint64_step)
  have len': "unat (3 :: uint64_t) = length ?ys"
    by simp
  have elems': "decodes (total deserialize_uint64) 0 ?ys ?t1 ?t2"
    by (simp add: serialize_uint64_def total_def deserialize_uint64_step)
  have run: "deserialize_map (total deserialize_uint64) (total deserialize_uint64) 0 0 ?s []
             = Returned 0 [(1, 10), (2, 20)] ?s2"
    by (simp add: deserialize_map_def serialize_uint64_def deserialize_pair_def total_def
          deserialize_uint64_step insert_loop.simps insert_hint_def insert_at_def)
  have run': "deserialize_set (total deserialize_uint64) 0 ?t [] = Returned 0 [3, 5] ?t2"
    by (simp add: deserialize_set_def serialize_uint64_def total_def
          deserialize_uint64_step insert_loop.simps insert_hint_def insert_at_def)
  from duplicate_keys_are_absorbed
         [where desK = "total deserialize_uint64" and desV = "total deserialize_uint64"
            and dfltK = 0 and dfltV = 0 and s = ?s and sz = 3 and ?s1.0 = ?s1 and xs = ?xs
            and ?s2.0 = ?s2 and ?m0.0 = "[]"
            and des = "total deserialize_uint64" and dflt = 0 and t = ?t and tz = 3
            and ?t1.0 = ?t1 and ys = ?ys and ?t2.0 = ?t2 and ?out0.0 = "[]"]
       count len elems count' len' elems' run run'
  show ?thesis
    by (auto simp del: map_of.simps set_simps)
qed

section \<open>Properties of the vector decoder\<close>

lemma deserialize_vector_count_unreadable:
  "length (remaining s) < 8 \<Longrightarrow>
   deserialize_vector serves dflt s v
   = Returned (if broken s then - 1 else - 2) []
       (s\<lparr>remaining := [], trace := trace s @ [Read 8]\<rparr>)"
  by (subst deserialize_vector.simps) (simp add: deserialize_uint64_def force_read_def Let_def)

text \<open>
  One turn of the vector decoder after a count that decoded: the request to the
  allocator, then the decoder itself on the resized destination.
\<close>

lemma deserialize_vector_after_count:
  assumes "deserialize_uint64 s 0 = (0, sz, s1)"
  shows "deserialize_vector serves dflt s v =
         (let s2 = s1\<lparr>trace := trace s1 @ [Alloc (unat sz)]\<rparr>
          in if \<not> serves (unat sz) then Threw s2
             else if unat sz = 0 then Returned 0 [] s2
             else (case deserialize_vector serves dflt s2 (replicate (unat sz) dflt) of
                     Returned res v' s3 \<Rightarrow>
                       if res \<noteq> 0 then Returned res v' s3
                       else if 1 < unat sz then Undefined s3
                       else Returned 0 v' s3
                   | Threw s3 \<Rightarrow> Threw s3
                   | Undefined s3 \<Rightarrow> Undefined s3))"
  using assms
  by (subst deserialize_vector.simps) (simp add: alloc_def Let_def)

text \<open>Whenever the vector decoder returns, the destination is empty.\<close>

lemma deserialize_vector_leaves_empty:
  "deserialize_vector serves dflt s v = Returned res v' s' \<Longrightarrow> v' = []"
proof (induction "length (remaining s)" arbitrary: s v res v' s' rule: less_induct)
  case less
  obtain r sz s1 where d: "deserialize_uint64 s 0 = (r, sz, s1)"
    by (cases "deserialize_uint64 s 0")
  show ?case
  proof (cases "r = 0")
    case False
    with less.prems d show ?thesis
      by (subst (asm) deserialize_vector.simps) simp
  next
    case True
    let ?s2 = "s1\<lparr>trace := trace s1 @ [Alloc (unat sz)]\<rparr>"
    from d True have shorter: "length (remaining ?s2) < length (remaining s)"
      using deserialize_uint64_success(1,2) [of s 0 sz s1] by simp
    from less.prems d True show ?thesis
      using less.hyps [OF shorter]
      by (simp add: deserialize_vector_after_count Let_def split: if_splits outcome.splits)
  qed
qed

text \<open>However the vector decoder ends, the requests made before it are still on record.\<close>

lemma deserialize_vector_trace:
  "prefix (trace s) (trace (stream_of (deserialize_vector serves dflt s v)))"
proof (induction "length (remaining s)" arbitrary: s v rule: less_induct)
  case less
  obtain r sz s1 where d: "deserialize_uint64 s 0 = (r, sz, s1)"
    by (cases "deserialize_uint64 s 0")
  note t1 = deserialize_uint64_trace [OF d]
  show ?case
  proof (cases "r = 0")
    case False
    with d t1 show ?thesis
      by (subst deserialize_vector.simps) simp
  next
    case True
    let ?s2 = "s1\<lparr>trace := trace s1 @ [Alloc (unat sz)]\<rparr>"
    from d True have shorter: "length (remaining ?s2) < length (remaining s)"
      using deserialize_uint64_success(1,2) [of s 0 sz s1] by simp
    have "prefix (trace ?s2) (trace (stream_of (deserialize_vector serves dflt ?s2 (replicate (unat sz) dflt))))"
      by (rule less.hyps [OF shorter])
    then have "prefix (trace s) (trace (stream_of (deserialize_vector serves dflt ?s2 (replicate (unat sz) dflt))))"
      using t1 by (auto simp: prefix_def)
    with d True t1 show ?thesis
      by (auto simp: deserialize_vector_after_count Let_def split: outcome.splits)
  qed
qed

text \<open>
  After a count that decoded, the next request of the vector decoder is the storage
  for exactly that many elements, however the decoder ends.
\<close>

lemma deserialize_vector_resizes:
  assumes "deserialize_uint64 s 0 = (0, sz, s1)"
  shows "prefix (trace s @ [Read 8, Alloc (unat sz)])
           (trace (stream_of (deserialize_vector serves dflt s v)))"
proof -
  let ?s2 = "s1\<lparr>trace := trace s1 @ [Alloc (unat sz)]\<rparr>"
  have t2: "trace ?s2 = trace s @ [Read 8, Alloc (unat sz)]"
    using deserialize_uint64_trace [OF assms] by simp
  have "prefix (trace ?s2) (trace (stream_of (deserialize_vector serves dflt ?s2 (replicate (unat sz) dflt))))"
    by (rule deserialize_vector_trace)
  with t2 show ?thesis
    by (auto simp: deserialize_vector_after_count [OF assms] Let_def split: outcome.splits)
qed

text \<open>
  C1 fails on the vector codec. The vector \<open>[0]\<close> of \<^verbatim>\<open>uint64_t\<close> is encoded as the count
  1 and the element 0. The decoder reads the count 1 and resizes to one element; the
  loop body then runs the vector decoder again on the destination itself, which clears
  it and reads the eight bytes of the element as a count of 0. Both calls return 0 and
  the destination is empty: the decode succeeds and the value is lost.
\<close>

theorem deserialize_vector_loses_elements:
  "deserialize_vector machine (0 :: uint64_t)
     \<lparr>remaining = serialize_vector serialize_uint64 [0], broken = False, trace = []\<rparr> []
   = Returned 0 [] \<lparr>remaining = [], broken = False, trace = [Read 8, Alloc 1, Read 8, Alloc 0]\<rparr>"
  by (simp add: serialize_vector_def serialize_uint64_def
        deserialize_vector.simps deserialize_uint64_step alloc_def)

text \<open>
  C4, as the claim states it, fails. A stream of eight bytes declares \<open>2^20\<close> and holds
  nothing else. Read as a vector, the decoder resizes the destination to \<open>2^20\<close>
  elements right after the count, before it looks at the stream again; read as a
  text, the decoder takes a buffer of \<open>2^20\<close> bytes before it asks for the first payload
  byte. In both the code \<open>-2\<close> comes from the next read, after the storage was taken.
\<close>

theorem deserialize_vector_resizes_to_any_count:
  "deserialize_vector machine (0 :: uint64_t)
     \<lparr>remaining = [0, 0, 16, 0, 0, 0, 0, 0], broken = False, trace = []\<rparr> []
   = Returned (- 2) [] \<lparr>remaining = [], broken = False,
                          trace = [Read 8, Alloc 1048576, Read 8]\<rparr>
   \<and> deserialize_string machine
     \<lparr>remaining = [0, 0, 16, 0, 0, 0, 0, 0], broken = False, trace = []\<rparr> []
   = Returned (- 2) [] \<lparr>remaining = [], broken = False,
                          trace = [Read 8, Alloc 1048576, Read 1048576]\<rparr>"
proof -
  let ?s = "\<lparr>remaining = [0, 0, 16, 0, 0, 0, 0, 0 :: byte], broken = False, trace = []\<rparr>"
  have "deserialize_vector machine (0 :: uint64_t) ?s []
        = Returned (- 2) [] \<lparr>remaining = [], broken = False,
                               trace = [Read 8, Alloc 1048576, Read 8]\<rparr>"
    by (subst deserialize_vector.simps)
       (simp add: deserialize_uint64_step alloc_def deserialize_vector_count_unreadable)
  moreover have "deserialize_string machine ?s []
        = Returned (- 2) [] \<lparr>remaining = [], broken = False,
                               trace = [Read 8, Alloc 1048576, Read 1048576]\<rparr>"
    by (simp add: deserialize_string_def deserialize_int64_step alloc_def force_read_def)
  ultimately show ?thesis
    by simp
qed

text \<open>
  C4, amended. The text decoder rejects a negative declared length with \<open>-3\<close> when the
  one request made is the read of the length field: no buffer was asked for and no
  payload read. A non-negative declared length is not checked by the text decoder and
  a declared count is not checked by the vector decoder: the size goes to the allocator
  as it was decoded, as the next request after the read of the field, however the
  decoder ends. When the allocator serves the text decoder, its next and last request
  is the read of that many payload bytes. When the allocator refuses the request, of
  the text decoder or of the vector decoder, the exception leaves the decoder and
  nothing more is read.
\<close>

theorem only_negative_lengths_are_rejected:
  "(deserialize_int64 s 0 = (0, L, s1) \<and> sint L < 0
      \<longrightarrow> deserialize_string serves s out = Returned (- 3) [] s1 \<and> trace s1 = trace s @ [Read 8])
   \<and> (deserialize_int64 s 0 = (0, L, s1) \<and> 0 \<le> sint L \<and> serves (nat (sint L))
      \<longrightarrow> trace (stream_of (deserialize_string serves s out))
          = trace s @ [Read 8, Alloc (nat (sint L)), Read (nat (sint L))])
   \<and> (deserialize_int64 s 0 = (0, L, s1) \<and> 0 \<le> sint L \<and> \<not> serves (nat (sint L))
      \<longrightarrow> deserialize_string serves s out
          = Threw (s1\<lparr>trace := trace s @ [Read 8, Alloc (nat (sint L))]\<rparr>))
   \<and> (deserialize_uint64 t 0 = (0, sz, t1)
      \<longrightarrow> prefix (trace t @ [Read 8, Alloc (unat sz)])
            (trace (stream_of (deserialize_vector serves dflt t v))))
   \<and> (deserialize_uint64 t 0 = (0, sz, t1) \<and> \<not> serves (unat sz)
      \<longrightarrow> deserialize_vector serves dflt t v
          = Threw (t1\<lparr>trace := trace t @ [Read 8, Alloc (unat sz)]\<rparr>))"
proof -
  have negative: "deserialize_string serves s out = Returned (- 3) [] s1 \<and> trace s1 = trace s @ [Read 8]"
    if "deserialize_int64 s 0 = (0, L, s1)" and "sint L < 0"
    using that deserialize_int64_success(2) [of s 0 L s1] by (simp add: deserialize_string_def)
  have served: "trace (stream_of (deserialize_string serves s out))
                = trace s @ [Read 8, Alloc (nat (sint L)), Read (nat (sint L))]"
    if "deserialize_int64 s 0 = (0, L, s1)" and "0 \<le> sint L" and "serves (nat (sint L))"
    using that deserialize_int64_success(2) [of s 0 L s1]
    by (simp add: deserialize_string_def force_read_def alloc_def Let_def)
  have refused: "deserialize_string serves s out
                 = Threw (s1\<lparr>trace := trace s @ [Read 8, Alloc (nat (sint L))]\<rparr>)"
    if "deserialize_int64 s 0 = (0, L, s1)" and "0 \<le> sint L" and "\<not> serves (nat (sint L))"
    using that deserialize_int64_success(2) [of s 0 L s1]
    by (simp add: deserialize_string_def alloc_def Let_def)
  have resize: "prefix (trace t @ [Read 8, Alloc (unat sz)])
                  (trace (stream_of (deserialize_vector serves dflt t v)))"
    if "deserialize_uint64 t 0 = (0, sz, t1)"
    using that by (rule deserialize_vector_resizes)
  have no_resize: "deserialize_vector serves dflt t v
                   = Threw (t1\<lparr>trace := trace t @ [Read 8, Alloc (unat sz)]\<rparr>)"
    if "deserialize_uint64 t 0 = (0, sz, t1)" and "\<not> serves (unat sz)"
    using that deserialize_uint64_trace [of t 0 0 sz t1]
    by (simp add: deserialize_vector_after_count Let_def)
  from negative served refused resize no_resize show ?thesis
    by blast
qed

theorem only_negative_lengths_are_rejected_witness:
  "deserialize_string machine
     \<lparr>remaining = [251, 255, 255, 255, 255, 255, 255, 255], broken = False, trace = []\<rparr> []
   = Returned (- 3) [] \<lparr>remaining = [], broken = False, trace = [Read 8]\<rparr>
   \<and> trace (stream_of (deserialize_string machine
       \<lparr>remaining = [0, 0, 16, 0, 0, 0, 0, 0], broken = False, trace = []\<rparr> []))
     = [Read 8, Alloc 1048576, Read 1048576]
   \<and> deserialize_string machine
     \<lparr>remaining = [0, 0, 0, 0, 0, 1, 0, 0], broken = False, trace = []\<rparr> []
   = Threw \<lparr>remaining = [], broken = False, trace = [Read 8, Alloc 1099511627776]\<rparr>
   \<and> prefix [Read 8, Alloc 3]
       (trace (stream_of (deserialize_vector machine (0 :: uint64_t)
          \<lparr>remaining = [3, 0, 0, 0, 0, 0, 0, 0], broken = False, trace = []\<rparr> [])))
   \<and> deserialize_vector machine (0 :: uint64_t)
     \<lparr>remaining = [255, 255, 255, 255, 255, 255, 255, 255], broken = False, trace = []\<rparr> []
   = Threw \<lparr>remaining = [], broken = False, trace = [Read 8, Alloc 18446744073709551615]\<rparr>"
proof -
  let ?neg = "\<lparr>remaining = [251, 255, 255, 255, 255, 255, 255, 255 :: byte], broken = False, trace = []\<rparr>"
  let ?big = "\<lparr>remaining = [0, 0, 16, 0, 0, 0, 0, 0 :: byte], broken = False, trace = []\<rparr>"
  let ?huge = "\<lparr>remaining = [0, 0, 0, 0, 0, 1, 0, 0 :: byte], broken = False, trace = []\<rparr>"
  let ?three = "\<lparr>remaining = [3, 0, 0, 0, 0, 0, 0, 0 :: byte], broken = False, trace = []\<rparr>"
  let ?all = "\<lparr>remaining = [255, 255, 255, 255, 255, 255, 255, 255 :: byte], broken = False, trace = []\<rparr>"
  let ?end = "\<lparr>remaining = [] :: byte list, broken = False, trace = [Read 8]\<rparr>"
  have n: "deserialize_int64 ?neg 0 = (0, - 5, ?end)" and n': "sint (- 5 :: 64 word) < 0"
    by (simp_all add: deserialize_int64_step)
  have b: "deserialize_int64 ?big 0 = (0, 1048576, ?end)"
    and b': "0 \<le> sint (1048576 :: 64 word)" "machine (nat (sint (1048576 :: 64 word)))"
    by (simp_all add: deserialize_int64_step)
  have h: "deserialize_int64 ?huge 0 = (0, 1099511627776, ?end)"
    and h': "0 \<le> sint (1099511627776 :: 64 word)" "\<not> machine (nat (sint (1099511627776 :: 64 word)))"
    by (simp_all add: deserialize_int64_step machine_def)
  have v: "deserialize_uint64 ?three 0 = (0, 3, ?end)"
    by (simp add: deserialize_uint64_step)
  have m: "unat (- 1 :: 64 word) = 18446744073709551615"
    by (simp add: unsigned_minus_1_eq_mask mask_eq_exp_minus_1)
  have a: "deserialize_uint64 ?all 0 = (0, - 1, ?end)" and a': "\<not> machine (unat (- 1 :: 64 word))"
    by (simp_all add: deserialize_uint64_step machine_def m)
  from only_negative_lengths_are_rejected
         [where s = ?neg and L = "- 5" and ?s1.0 = ?end and out = "[]" and serves = machine
            and t = ?three and sz = 3 and ?t1.0 = ?end and dflt = "0 :: uint64_t" and v = "[]"]
       only_negative_lengths_are_rejected
         [where s = ?big and L = 1048576 and ?s1.0 = ?end and out = "[]" and serves = machine
            and t = ?all and sz = "- 1" and ?t1.0 = ?end and dflt = "0 :: uint64_t" and v = "[]"]
       only_negative_lengths_are_rejected
         [where s = ?huge and L = 1099511627776 and ?s1.0 = ?end and out = "[]" and serves = machine
            and t = ?three and sz = 3 and ?t1.0 = ?end and dflt = "0 :: uint64_t" and v = "[]"]
       n n' b b' h h' v a a' m
  show ?thesis
    by simp
qed

section \<open>Propagation of failures\<close>

lemma code_of_simps [simp]:
  "code_of (Returned res d s) = Returned res () s"
  "code_of (Threw s) = Threw s"
  "code_of (Undefined s) = Undefined s"
  by (simp_all add: code_of_def)

lemma list_loop_code:
  "code_of (list_loop des dflt i sz s v)
   = first_nonzero (replicate (sz - i) (\<lambda>s. code_of (des s dflt))) s"
proof (induction "sz - i" arbitrary: i s v)
  case 0
  then show ?case by (subst list_loop.simps) simp
next
  case (Suc n)
  then have i: "i < sz" and n: "n = sz - (i + 1)" and r: "sz - i = Suc n" and n': "sz - Suc i = n"
    by auto
  show ?case
    using i Suc.hyps(1) [OF n]
    by (subst list_loop.simps) (auto simp: r n' Let_def split: outcome.splits)
qed

lemma insert_loop_code:
  "code_of (insert_loop kov des dflt i sz s position out)
   = first_nonzero (replicate (sz - i) (\<lambda>s. code_of (des s dflt))) s"
proof (induction "sz - i" arbitrary: i s position out)
  case 0
  then show ?case by (subst insert_loop.simps) simp
next
  case (Suc n)
  then have i: "i < sz" and n: "n = sz - (i + 1)" and r: "sz - i = Suc n" and n': "sz - Suc i = n"
    by auto
  show ?case
    using i Suc.hyps(1) [OF n]
    by (subst insert_loop.simps) (auto simp: r n' split_beta split: outcome.splits)
qed

text \<open>
  The pair, list, set and map decoders end as the rule does on their nested decodes in
  program order: the two components; the count and then one element decode for each
  declared element. So a non-zero result is the code of the first nested decode that
  failed, as it was returned, the stream is as that decode left it, and no later
  element was decoded.
\<close>

lemma pair_list_set_map_return_first_failure:
  "code_of (deserialize_pair desT desU s p)
     = first_nonzero [\<lambda>s. code_of (desT s (fst p)), \<lambda>s. code_of (desU s (snd p))] s
   \<and> code_of (deserialize_list desL dfltL s l)
     = first_nonzero (count_step # replicate (declared_count s) (\<lambda>s. code_of (desL s dfltL))) s
   \<and> code_of (deserialize_set desS dfltS s out)
     = first_nonzero (count_step # replicate (declared_count s) (\<lambda>s. code_of (desS s dfltS))) s
   \<and> code_of (deserialize_map desK desV dfltK dfltV s m)
     = first_nonzero (count_step # replicate (declared_count s)
         (\<lambda>s. code_of (deserialize_pair desK desV s (dfltK, dfltV)))) s"
proof -
  have pair: "code_of (deserialize_pair desT desU s p)
     = first_nonzero [\<lambda>s. code_of (desT s (fst p)), \<lambda>s. code_of (desU s (snd p))] s"
    by (auto simp: deserialize_pair_def split: outcome.splits)
  have list: "code_of (deserialize_list desL dfltL s l)
     = first_nonzero (count_step # replicate (declared_count s) (\<lambda>s. code_of (desL s dfltL))) s"
    by (auto simp: deserialize_list_def count_step_def declared_count_def list_loop_code
          split: prod.splits)
  have set: "code_of (deserialize_set desS dfltS s out)
     = first_nonzero (count_step # replicate (declared_count s) (\<lambda>s. code_of (desS s dfltS))) s"
    by (auto simp: deserialize_set_def count_step_def declared_count_def insert_loop_code
          split: prod.splits)
  have map: "code_of (deserialize_map desK desV dfltK dfltV s m)
     = first_nonzero (count_step # replicate (declared_count s)
         (\<lambda>s. code_of (deserialize_pair desK desV s (dfltK, dfltV)))) s"
    by (auto simp: deserialize_map_def count_step_def declared_count_def insert_loop_code
          split: prod.splits)
  from pair list set map show ?thesis
    by blast
qed

text \<open>
  C7 fails on the vector decoder, by the slip that makes C1 fail: the loop body never
  decodes an element, so the code of a failing element is not what the decoder
  returns. Take a vector of pairs of a \<^verbatim>\<open>uint64_t\<close> and a text, and the stream of the
  count 1, the integer 0 and a text length of \<open>-5\<close>. By the rule the nested decodes are
  the count and the one element, and the element fails with \<open>-3\<close> on its text. The
  vector decoder reads the count 1, resizes, and runs itself on the destination: it
  reads the integer 0 as a count of 0 and returns 0. The decoder returns success, with
  the last eight bytes of the stream unread.
\<close>

theorem deserialize_vector_hides_element_failure:
  "first_nonzero
     (count_step # replicate 1
        (\<lambda>s. code_of (deserialize_pair (total deserialize_uint64) (deserialize_string machine)
                        s (0, []))))
     \<lparr>remaining = [1, 0, 0, 0, 0, 0, 0, 0,
                    0, 0, 0, 0, 0, 0, 0, 0,
                    251, 255, 255, 255, 255, 255, 255, 255], broken = False, trace = []\<rparr>
   = Returned (- 3) () \<lparr>remaining = [], broken = False, trace = [Read 8, Read 8, Read 8]\<rparr>
   \<and> deserialize_vector machine (0 :: uint64_t, [] :: std_string)
     \<lparr>remaining = [1, 0, 0, 0, 0, 0, 0, 0,
                    0, 0, 0, 0, 0, 0, 0, 0,
                    251, 255, 255, 255, 255, 255, 255, 255], broken = False, trace = []\<rparr> []
   = Returned 0 []
       \<lparr>remaining = [251, 255, 255, 255, 255, 255, 255, 255], broken = False,
          trace = [Read 8, Alloc 1, Read 8, Alloc 0]\<rparr>"
proof -
  let ?s = "\<lparr>remaining = [1, 0, 0, 0, 0, 0, 0, 0,
                    0, 0, 0, 0, 0, 0, 0, 0,
                    251, 255, 255, 255, 255, 255, 255, 255 :: byte], broken = False, trace = []\<rparr>"
  have one: "replicate 1 x = [x]" for x :: step
    by simp
  have rule: "first_nonzero
     (count_step # replicate 1
        (\<lambda>s. code_of (deserialize_pair (total deserialize_uint64) (deserialize_string machine)
                        s (0, [])))) ?s
   = Returned (- 3) () \<lparr>remaining = [], broken = False, trace = [Read 8, Read 8, Read 8]\<rparr>"
    by (simp add: one count_step_def deserialize_pair_def deserialize_uint64_step
          deserialize_string_def deserialize_int64_step)
  have code: "deserialize_vector machine (0 :: uint64_t, [] :: std_string) ?s []
   = Returned 0 []
       \<lparr>remaining = [251, 255, 255, 255, 255, 255, 255, 255], broken = False,
          trace = [Read 8, Alloc 1, Read 8, Alloc 0]\<rparr>"
    by (simp add: deserialize_vector.simps deserialize_uint64_step alloc_def)
  from rule code show ?thesis
    by simp
qed

text \<open>
  The same with a vector of texts and the stream of the count 1 and a text length of
  \<open>-5\<close>: the rule gives \<open>-3\<close>; the vector decoder reads the length as a count of
  \<open>2^64 - 5\<close> and asks the allocator for that many elements, which it refuses.
\<close>

lemma deserialize_vector_text_element:
  "first_nonzero (count_step # replicate 1 (\<lambda>s. code_of (deserialize_string machine s [])))
     \<lparr>remaining = [1, 0, 0, 0, 0, 0, 0, 0, 251, 255, 255, 255, 255, 255, 255, 255],
        broken = False, trace = []\<rparr>
   = Returned (- 3) () \<lparr>remaining = [], broken = False, trace = [Read 8, Read 8]\<rparr>
   \<and> deserialize_vector machine ([] :: std_string)
     \<lparr>remaining = [1, 0, 0, 0, 0, 0, 0, 0, 251, 255, 255, 255, 255, 255, 255, 255],
        broken = False, trace = []\<rparr> []
   = Threw \<lparr>remaining = [], broken = False,
              trace = [Read 8, Alloc 1, Read 8, Alloc 18446744073709551611]\<rparr>"
proof -
  let ?s = "\<lparr>remaining = [1, 0, 0, 0, 0, 0, 0, 0, 251, 255, 255, 255, 255, 255, 255, 255 :: byte],
             broken = False, trace = []\<rparr>"
  have one: "replicate 1 x = [x]" for x :: step
    by simp
  have m: "unat (- 5 :: 64 word) = 18446744073709551611"
    by (simp add: unat_eq_nat_uint)
  have rule: "first_nonzero (count_step # replicate 1 (\<lambda>s. code_of (deserialize_string machine s []))) ?s
   = Returned (- 3) () \<lparr>remaining = [], broken = False, trace = [Read 8, Read 8]\<rparr>"
    by (simp add: one count_step_def deserialize_uint64_step deserialize_string_def deserialize_int64_step)
  have code: "deserialize_vector machine ([] :: std_string) ?s []
   = Threw \<lparr>remaining = [], broken = False,
              trace = [Read 8, Alloc 1, Read 8, Alloc 18446744073709551611]\<rparr>"
    by (simp add: deserialize_vector.simps [of _ _ ?s] deserialize_uint64_step alloc_def
          deserialize_vector_after_count [where sz = "- 5"] m)
  from rule code show ?thesis
    by simp
qed

section \<open>Round trips of the pair, text, list, set and map codecs\<close>

text \<open>
  The round-trip law holds for every shape but the vector, given that it holds for
  the element types: the integers round-trip, the text does when the allocator serves
  its length, and the pair, list, set and map codecs round-trip over element codecs
  that do.
\<close>

lemma round_tripsD:
  "round_trips P ser des dflt \<Longrightarrow> P x \<Longrightarrow> remaining s = ser x @ rest \<Longrightarrow>
   \<exists>s'. des s dflt = Returned 0 x s' \<and> remaining s' = rest"
  unfolding round_trips_def by blast

lemma round_trips_uint64:
  "round_trips (\<lambda>x. True) serialize_uint64 (total deserialize_uint64) d"
  by (simp add: round_trips_def total_def serialize_uint64_def deserialize_uint64_to_bytes)

lemma round_trips_string:
  "round_trips (\<lambda>v. length v < 2 ^ 63 \<and> serves (length v)) serialize_string
     (deserialize_string serves) d"
  unfolding round_trips_def
proof (intro allI impI, elim conjE)
  fix v and s :: read_stream_t and rest
  assume "length v < 2 ^ 63" and "serves (length v)" and "remaining s = serialize_string v @ rest"
  from deserialize_string_serialize_string [where serves = serves and out = d, OF this]
  show "\<exists>s'. deserialize_string serves s d = Returned 0 v s' \<and> remaining s' = rest"
    by simp
qed

lemma round_trips_pair:
  assumes "round_trips P serT desT dfltT" and "round_trips Q serU desU dfltU"
  shows "round_trips (\<lambda>p. P (fst p) \<and> Q (snd p)) (serialize_pair serT serU)
           (deserialize_pair desT desU) (dfltT, dfltU)"
  unfolding round_trips_def
proof (intro allI impI, elim conjE)
  fix x and s :: read_stream_t and rest
  assume x: "P (fst x)" "Q (snd x)" and s: "remaining s = serialize_pair serT serU x @ rest"
  from s have "remaining s = serT (fst x) @ (serU (snd x) @ rest)"
    by (simp add: serialize_pair_def)
  from round_tripsD [OF assms(1) x(1) this]
  obtain s1 where s1: "desT s dfltT = Returned 0 (fst x) s1" "remaining s1 = serU (snd x) @ rest"
    by blast
  from round_tripsD [OF assms(2) x(2) s1(2)]
  obtain s2 where s2: "desU s1 dfltU = Returned 0 (snd x) s2" "remaining s2 = rest"
    by blast
  from s1 s2 show "\<exists>s'. deserialize_pair desT desU s (dfltT, dfltU) = Returned 0 x s' \<and> remaining s' = rest"
    by (simp add: deserialize_pair_def)
qed

lemma round_trips_decodes:
  assumes "round_trips P ser des dflt"
  shows "list_all P xs \<Longrightarrow> remaining s = concat (map ser xs) @ rest \<Longrightarrow>
         \<exists>s'. decodes des dflt xs s s' \<and> remaining s' = rest"
proof (induction xs arbitrary: s)
  case Nil
  then show ?case by simp
next
  case (Cons x xs)
  then have "P x" and "remaining s = ser x @ (concat (map ser xs) @ rest)"
    by simp_all
  from round_tripsD [OF assms this]
  obtain s1 where s1: "des s dflt = Returned 0 x s1" "remaining s1 = concat (map ser xs) @ rest"
    by blast
  from Cons.IH [OF _ s1(2)] Cons.prems(1)
  obtain s' where "decodes des dflt xs s1 s'" "remaining s' = rest"
    by auto
  with s1 show ?case by auto
qed

lemma list_loop_decodes:
  "decodes des dflt xs s s' \<Longrightarrow> i + length xs = sz \<Longrightarrow>
   list_loop des dflt i sz s v = Returned 0 (v @ xs) s'"
proof (induction xs arbitrary: i s v)
  case Nil
  then show ?case by (subst list_loop.simps) simp
next
  case (Cons x xs)
  then show ?case
    by (subst list_loop.simps) (auto split: outcome.splits)
qed

lemma count_decodes:
  assumes "n < 2 ^ 64" and "remaining s = serialize_uint64 (word_of_nat n) @ rest"
  shows "\<exists>s1. deserialize_uint64 s 0 = (0, word_of_nat n, s1) \<and> remaining s1 = rest
              \<and> unat (word_of_nat n :: uint64_t) = n"
  using assms
  by (simp add: serialize_uint64_def deserialize_uint64_to_bytes unat_word_of_nat)

lemma round_trips_list:
  assumes "round_trips P ser des dflt"
  shows "round_trips (\<lambda>v. length v < 2 ^ 64 \<and> list_all P v) (serialize_list ser)
           (deserialize_list des dflt) []"
  unfolding round_trips_def
proof (intro allI impI, elim conjE)
  fix v and s :: read_stream_t and rest
  assume v: "length v < 2 ^ 64" "list_all P v" and s: "remaining s = serialize_list ser v @ rest"
  from s have "remaining s = serialize_uint64 (word_of_nat (length v)) @ (concat (map ser v) @ rest)"
    by (simp add: serialize_list_def)
  from count_decodes [OF v(1) this]
  obtain s1 where s1: "deserialize_uint64 s 0 = (0, word_of_nat (length v), s1)"
      "remaining s1 = concat (map ser v) @ rest" "unat (word_of_nat (length v) :: uint64_t) = length v"
    by blast
  from round_trips_decodes [OF assms v(2) s1(2)]
  obtain s' where s': "decodes des dflt v s1 s'" "remaining s' = rest"
    by blast
  from list_loop_decodes [OF s'(1), of 0 "length v" "[]"] s1 s'
  show "\<exists>s'. deserialize_list des dflt s [] = Returned 0 v s' \<and> remaining s' = rest"
    by (simp add: deserialize_list_def)
qed

lemma fold_insert_unique_ascending:
  "ascending kov (c @ xs) \<Longrightarrow> fold (\<lambda>x c. snd (insert_unique kov x c)) xs c = c @ xs"
proof (induction xs arbitrary: c)
  case Nil
  then show ?case by simp
next
  case (Cons x xs)
  from Cons.prems have "\<forall>y\<in>set c. kov y < kov x"
    by (auto simp: sorted_wrt_append)
  from insert_unique_between [OF this, of "[]"]
  have "snd (insert_unique kov x c) = c @ [x]"
    by simp
  with Cons.IH [of "c @ [x]"] Cons.prems show ?case
    by simp
qed

lemma insert_loop_ascending:
  assumes "decodes des dflt xs s s'" and "ascending kov xs"
  shows "insert_loop kov des dflt 0 (length xs) s 0 [] = Returned 0 xs s'"
  using insert_loop_unhinted_decodes [OF assms(1), of 0 "length xs" kov "[]"]
        fold_insert_unique_ascending [of kov "[]" xs] assms(2)
  by (simp add: insert_loop_eq_unhinted)

lemma round_trips_set:
  assumes "round_trips P ser des dflt"
  shows "round_trips (\<lambda>v. length v < 2 ^ 64 \<and> list_all P v \<and> ascending (\<lambda>x. x) v)
           (serialize_set ser) (deserialize_set des dflt) out"
  unfolding round_trips_def
proof (intro allI impI, elim conjE)
  fix v and s :: read_stream_t and rest
  assume v: "length v < 2 ^ 64" "list_all P v" "ascending (\<lambda>x. x) v"
    and s: "remaining s = serialize_set ser v @ rest"
  from s have "remaining s = serialize_uint64 (word_of_nat (length v)) @ (concat (map ser v) @ rest)"
    by (simp add: serialize_set_def)
  from count_decodes [OF v(1) this]
  obtain s1 where s1: "deserialize_uint64 s 0 = (0, word_of_nat (length v), s1)"
      "remaining s1 = concat (map ser v) @ rest" "unat (word_of_nat (length v) :: uint64_t) = length v"
    by blast
  from round_trips_decodes [OF assms v(2) s1(2)]
  obtain s' where s': "decodes des dflt v s1 s'" "remaining s' = rest"
    by blast
  from insert_loop_ascending [OF s'(1) v(3)] s1 s'
  show "\<exists>s'. deserialize_set des dflt s out = Returned 0 v s' \<and> remaining s' = rest"
    by (simp add: deserialize_set_def)
qed

lemma round_trips_map:
  assumes "round_trips P serK desK dfltK" and "round_trips Q serV desV dfltV"
  shows "round_trips (\<lambda>m. length m < 2 ^ 64 \<and> list_all (\<lambda>p. P (fst p) \<and> Q (snd p)) m \<and> ascending fst m)
           (serialize_map serK serV) (deserialize_map desK desV dfltK dfltV) m0"
  unfolding round_trips_def
proof (intro allI impI, elim conjE)
  fix m and s :: read_stream_t and rest
  assume m: "length m < 2 ^ 64" "list_all (\<lambda>p. P (fst p) \<and> Q (snd p)) m" "ascending fst m"
    and s: "remaining s = serialize_map serK serV m @ rest"
  from s have "remaining s = serialize_uint64 (word_of_nat (length m))
                 @ (concat (map (serialize_pair serK serV) m) @ rest)"
    by (simp add: serialize_map_def)
  from count_decodes [OF m(1) this]
  obtain s1 where s1: "deserialize_uint64 s 0 = (0, word_of_nat (length m), s1)"
      "remaining s1 = concat (map (serialize_pair serK serV) m) @ rest"
      "unat (word_of_nat (length m) :: uint64_t) = length m"
    by blast
  from round_trips_decodes [OF round_trips_pair [OF assms] m(2) s1(2)]
  obtain s' where s': "decodes (deserialize_pair desK desV) (dfltK, dfltV) m s1 s'" "remaining s' = rest"
    by blast
  from insert_loop_ascending [OF s'(1) m(3)] s1 s'
  show "\<exists>s'. deserialize_map desK desV dfltK dfltV s m0 = Returned 0 m s' \<and> remaining s' = rest"
    by (simp add: deserialize_map_def)
qed

end
